theory Spec2Isabelle
  imports Main "HOL-Library.Char_ord" "HOL-Library.List_Lexorder" "HOL-Library.Sublist"
begin

section \<open>Python strings\<close>

text \<open>
  A Python \<open>str\<close> is modelled as a \<^typ>\<open>string\<close>: one \<^typ>\<open>char\<close> stands for one
  code point below 256.  The characters for which \<open>str.isspace\<close> holds in that range are
  also the ones the regular expression class \<open>\s\<close> accepts on \<open>str\<close> patterns.
\<close>

definition whitespace :: "char list" where
  "whitespace = [CHR 0x09, CHR 0x0A, CHR 0x0B, CHR 0x0C, CHR 0x0D,
                 CHR 0x1C, CHR 0x1D, CHR 0x1E, CHR 0x1F, CHR 0x20, CHR 0x85, CHR 0xA0]"

definition isspace :: "char \<Rightarrow> bool" where
  "isspace c = (c \<in> set whitespace)"

abbreviation quote :: char where
  "quote \<equiv> CHR 0x27"

abbreviation newline :: char where
  "newline \<equiv> CHR 0x0A"

definition lstrip_by :: "(char \<Rightarrow> bool) \<Rightarrow> string \<Rightarrow> string" where
  "lstrip_by P s = dropWhile P s"

definition rstrip_by :: "(char \<Rightarrow> bool) \<Rightarrow> string \<Rightarrow> string" where
  "rstrip_by P s = rev (dropWhile P (rev s))"

definition strip :: "string \<Rightarrow> string" where
  \<comment> \<open>\<open>s.strip()\<close>: whitespace is removed at both ends\<close>
  "strip s = rstrip_by isspace (lstrip_by isspace s)"

definition strip_chars :: "string \<Rightarrow> string \<Rightarrow> string" where
  \<comment> \<open>\<open>s.strip(cs)\<close>: every leading and trailing character that occurs in \<open>cs\<close> is removed\<close>
  "strip_chars cs s = rstrip_by (\<lambda>c. c \<in> set cs) (lstrip_by (\<lambda>c. c \<in> set cs) s)"

fun split_on :: "char \<Rightarrow> string \<Rightarrow> string list" where
  \<comment> \<open>\<open>s.split(c)\<close> for a one-character separator; the result is never empty, so the
      first branch of the \<open>case\<close> is never taken\<close>
  "split_on c [] = [[]]"
| "split_on c (x # xs) =
     (if x = c then [] # split_on c xs
      else (case split_on c xs of [] \<Rightarrow> [[x]] | y # ys \<Rightarrow> (x # y) # ys))"

fun join :: "string \<Rightarrow> string list \<Rightarrow> string" where
  \<comment> \<open>\<open>sep.join(xs)\<close>\<close>
  "join sep [] = []"
| "join sep [x] = x"
| "join sep (x # y # ys) = x @ sep @ join sep (y # ys)"

definition digit_char :: "nat \<Rightarrow> char" where
  \<comment> \<open>the decimal digit \<open>d\<close>, for \<open>d < 10\<close>\<close>
  "digit_char d = ''0123456789'' ! d"

fun str_nat :: "nat \<Rightarrow> string" where
  \<comment> \<open>\<open>str(n)\<close> for a non-negative integer\<close>
  "str_nat n = (if n < 10 then [digit_char n] else str_nat (n div 10) @ [digit_char (n mod 10)])"

declare str_nat.simps [simp del]

section \<open>Dictionaries\<close>

text \<open>
  A Python \<open>dict\<close> from strings to values keeps its keys in insertion order; it is an
  association list with distinct keys, updated in place.
\<close>

type_synonym 'v pydict = "(string \<times> 'v) list"

fun dict_set :: "'v pydict \<Rightarrow> string \<Rightarrow> 'v \<Rightarrow> 'v pydict" where
  \<comment> \<open>\<open>d[k] = v\<close>\<close>
  "dict_set [] k v = [(k, v)]"
| "dict_set ((k', v') # d) k v = (if k' = k then (k, v) # d else (k', v') # dict_set d k v)"

definition dict_get :: "'v pydict \<Rightarrow> string \<Rightarrow> 'v option" where
  \<comment> \<open>\<open>d.get(k)\<close>\<close>
  "dict_get d k = map_of d k"

definition dict_keys :: "'v pydict \<Rightarrow> string list" where
  "dict_keys d = map fst d"

section \<open>Regular expressions\<close>

text \<open>
  The fragment of Python's \<open>re\<close> that the pattern registry uses: a pattern is a sequence of
  one-character classes, each taken once or under a greedy \<open>*\<close> or \<open>+\<close>, around exactly one
  capture group.  Matching is the backtracking search of \<open>re\<close>: a greedy quantifier first takes
  one more character and gives it back only when the rest of the pattern fails.
\<close>

datatype cclass =
    Lit char       \<comment> \<open>a literal character (also an escaped one such as \<open>\[\<close>)\<close>
  | NotLit char    \<comment> \<open>\<open>[^c]\<close>\<close>
  | Space          \<comment> \<open>\<open>\s\<close>\<close>
  | NotSpace       \<comment> \<open>\<open>[^\s]\<close>\<close>

fun cmatch :: "cclass \<Rightarrow> char \<Rightarrow> bool" where
  "cmatch (Lit c) x = (x = c)"
| "cmatch (NotLit c) x = (x \<noteq> c)"
| "cmatch Space x = isspace x"
| "cmatch NotSpace x = (\<not> isspace x)"

datatype item = One cclass | Star cclass | Plus cclass

record regex =
  before :: "item list"    \<comment> \<open>what precedes the group\<close>
  inside :: "item list"    \<comment> \<open>the capture group\<close>
  after :: "item list"     \<comment> \<open>what follows the group\<close>

datatype atom = Item item | GOpen | GClose

definition atoms :: "regex \<Rightarrow> atom list" where
  "atoms r = map Item (before r) @ [GOpen] @ map Item (inside r) @ [GClose] @ map Item (after r)"

fun rmatch :: "atom list \<Rightarrow> string \<Rightarrow> string \<Rightarrow> string \<Rightarrow> string option" where
  \<comment> \<open>\<open>rmatch p s st cap\<close>: match \<open>p\<close> at the start of \<open>s\<close>; \<open>st\<close> is the input as it was where the
      group opened, \<open>cap\<close> the text of the group once it is closed.  The result is the text of
      group 1 of the match that \<open>re\<close> finds first.\<close>
  "rmatch [] s st cap = Some cap"
| "rmatch (GOpen # p) s st cap = rmatch p s s cap"
| "rmatch (GClose # p) s st cap = rmatch p s st (take (length st - length s) st)"
| "rmatch (Item (One c) # p) [] st cap = None"
| "rmatch (Item (One c) # p) (x # xs) st cap =
     (if cmatch c x then rmatch p xs st cap else None)"
| "rmatch (Item (Plus c) # p) [] st cap = None"
| "rmatch (Item (Plus c) # p) (x # xs) st cap =
     (if cmatch c x then rmatch (Item (Star c) # p) xs st cap else None)"
| "rmatch (Item (Star c) # p) [] st cap = rmatch p [] st cap"
| "rmatch (Item (Star c) # p) (x # xs) st cap =
     (if cmatch c x
      then (case rmatch (Item (Star c) # p) xs st cap of
              Some g \<Rightarrow> Some g
            | None \<Rightarrow> rmatch p (x # xs) st cap)
      else rmatch p (x # xs) st cap)"

definition match_at :: "regex \<Rightarrow> string \<Rightarrow> string option" where
  "match_at r s = rmatch (atoms r) s [] []"

fun re_search :: "regex \<Rightarrow> string \<Rightarrow> string option" where
  \<comment> \<open>\<open>re.search(r, s)\<close> followed by \<open>.group(1)\<close>: the leftmost start position that matches wins\<close>
  "re_search r [] = match_at r []"
| "re_search r (x # xs) =
     (case match_at r (x # xs) of Some g \<Rightarrow> Some g | None \<Rightarrow> re_search r xs)"

definition lits :: "string \<Rightarrow> item list" where
  "lits s = map (\<lambda>c. One (Lit c)) s"

section \<open>The pattern registry\<close>

definition re_replica_set_name :: regex where
  \<comment> \<open>\<open>setName:\s*\'([^\']+)\'\<close>\<close>
  "re_replica_set_name =
     \<lparr>before = lits ''setName:'' @ [Star Space, One (Lit quote)],
      inside = [Plus (NotLit quote)],
      after = [One (Lit quote)]\<rparr>"

definition re_hosts :: regex where
  \<comment> \<open>\<open>hosts:\s*\[\s*([^\]]*)\s*\]\<close>\<close>
  "re_hosts =
     \<lparr>before = lits ''hosts:'' @ [Star Space, One (Lit CHR ''[''), Star Space],
      inside = [Star (NotLit CHR '']'')],
      after = [Star Space, One (Lit CHR '']'')]\<rparr>"

definition re_primary_host :: regex where
  \<comment> \<open>\<open>primary:\s*\'([^\']+)\'\<close>\<close>
  "re_primary_host =
     \<lparr>before = lits ''primary:'' @ [Star Space, One (Lit quote)],
      inside = [Plus (NotLit quote)],
      after = [One (Lit quote)]\<rparr>"

definition re_database_name :: regex where
  \<comment> \<open>\<open>\*\* DATABASE:\s*([^\s]+)\<close>\<close>
  "re_database_name =
     \<lparr>before = lits ''** DATABASE:'' @ [Star Space],
      inside = [Plus NotSpace],
      after = []\<rparr>"

definition CLUSTER_REGEXES :: "regex pydict" where
  "CLUSTER_REGEXES =
     [(''replica_set_name'', re_replica_set_name),
      (''hosts'', re_hosts),
      (''primary_host'', re_primary_host)]"

definition DATABASE_REGEXES :: "regex pydict" where
  "DATABASE_REGEXES = [(''database_name'', re_database_name)]"

section \<open>The parser\<close>

type_synonym record_t = "string pydict"

record config =
  cluster :: "regex pydict"
  database :: "regex pydict"

definition main_config :: config where
  \<comment> \<open>the configuration that \<open>main\<close> builds\<close>
  "main_config = \<lparr>cluster = CLUSTER_REGEXES, database = DATABASE_REGEXES\<rparr>"

record parser =
  config :: config
  parsed_data :: "record_t list"

definition Parser :: "config \<Rightarrow> parser" where
  \<comment> \<open>\<open>Parser.__init__\<close>\<close>
  "Parser cfg = \<lparr>config = cfg, parsed_data = []\<rparr>"

datatype error =
  FileNotFoundError | IOError | ValueError | AttributeError | UnboundLocalError

definition read_text_file :: "(string \<rightharpoonup> error + string) \<Rightarrow> string \<Rightarrow> error + string" where
  \<comment> \<open>the file system gives, for a path that exists, its text or the error of reading it\<close>
  "read_text_file fs file_path =
     (case fs file_path of None \<Rightarrow> Inl FileNotFoundError | Some r \<Rightarrow> r)"

definition hosts_value :: "string \<Rightarrow> string" where
  \<comment> \<open>the \<open>hosts\<close> branch of \<open>parse_cluster_info\<close>, applied to group 1\<close>
  "hosts_value g =
     join '' | ''
       (map (\<lambda>host. strip_chars [quote] (strip host))
          (filter (\<lambda>host. strip host \<noteq> []) (split_on CHR '','' g)))"

definition cluster_field :: "string \<Rightarrow> string \<times> regex \<Rightarrow> record_t \<Rightarrow> record_t" where
  \<comment> \<open>one round of the loop over \<open>self.config['cluster'].items()\<close>\<close>
  "cluster_field content fp record =
     (case re_search (snd fp) content of
        None \<Rightarrow> record
      | Some g \<Rightarrow>
          if fst fp = ''hosts'' then dict_set record (fst fp) (hosts_value g)
          else dict_set record (fst fp) (strip g))"

definition parse_cluster_info :: "parser \<Rightarrow> string \<Rightarrow> record_t list" where
  "parse_cluster_info self content =
     (let record = fold (cluster_field content) (cluster (config self)) []
      in if record \<noteq> [] then [record] else [])"

definition database_field :: "string \<Rightarrow> string \<times> regex \<Rightarrow> record_t \<Rightarrow> record_t" where
  \<comment> \<open>one round of the loop over \<open>self.config['database'].items()\<close>\<close>
  "database_field line fp record =
     dict_set record (fst fp)
       (case re_search (snd fp) line of Some g \<Rightarrow> strip g | None \<Rightarrow> [])"

definition database_record :: "parser \<Rightarrow> nat \<times> string \<Rightarrow> record_t" where
  \<comment> \<open>the record built for one numbered line\<close>
  "database_record self nl =
     fold (database_field (snd nl)) (database (config self))
       [(''line_number'', str_nat (fst nl))]"

definition truthy :: "string option \<Rightarrow> bool" where
  \<comment> \<open>the truth value of \<open>record.get(k)\<close>\<close>
  "truthy v = (case v of None \<Rightarrow> False | Some s \<Rightarrow> s \<noteq> [])"

definition parse_database_info :: "parser \<Rightarrow> string \<Rightarrow> record_t list" where
  "parse_database_info self content =
     filter (\<lambda>record. truthy (dict_get record ''database_name''))
       (map (database_record self) (List.enumerate 1 (split_on newline (strip content))))"

definition parse_file ::
  "parser \<Rightarrow> (string \<rightharpoonup> error + string) \<Rightarrow> string \<Rightarrow> string \<Rightarrow> (error + record_t list) \<times> parser"
where
  \<comment> \<open>returns what the method returns or raises, and the parser object afterwards\<close>
  "parse_file p fs file_path parse_type =
     (case read_text_file fs file_path of
        Inl e \<Rightarrow> (Inl e, p)
      | Inr content \<Rightarrow>
          if parse_type = ''cluster''
          then (let d = parse_cluster_info p content
                in (Inr d, p\<lparr>parsed_data := d\<rparr>))
          else if parse_type = ''database''
          then (let d = parse_database_info p content
                in (Inr d, p\<lparr>parsed_data := d\<rparr>))
          else (Inl ValueError, p))"

section \<open>Writing CSV\<close>

text \<open>
  The sinks of \<open>write_to_csv\<close>.  A row is the list of its cells (the text that \<open>csv.writer\<close>
  makes of a row is not modelled).  The world records what standard output and each file have
  received, which file objects were opened and not closed, for which paths \<open>open\<close> refuses,
  and how many rows the sinks still accept before a write fails (\<open>None\<close>: no limit).
\<close>

type_synonym row = "string list"

datatype handle = Stdout | File string

record world =
  stdout :: "row list"
  files :: "(row list) pydict"
  open_files :: "string list"
  unwritable :: "string list"
  quota :: "nat option"

definition open_w :: "world \<Rightarrow> string \<Rightarrow> (error + handle) \<times> world" where
  \<comment> \<open>\<open>open(path, 'w')\<close>: the file is created or truncated\<close>
  "open_w w path =
     (if path \<in> set (unwritable w) then (Inl IOError, w)
      else (Inr (File path),
            w\<lparr>files := dict_set (files w) path [], open_files := path # open_files w\<rparr>))"

definition append_row :: "world \<Rightarrow> handle \<Rightarrow> row \<Rightarrow> world" where
  "append_row w h r =
     (case h of
        Stdout \<Rightarrow> w\<lparr>stdout := stdout w @ [r]\<rparr>
      | File path \<Rightarrow>
          w\<lparr>files := dict_set (files w) path
                        ((case dict_get (files w) path of None \<Rightarrow> [] | Some rs \<Rightarrow> rs) @ [r])\<rparr>)"

definition write_row :: "world \<Rightarrow> handle \<Rightarrow> row \<Rightarrow> (error + unit) \<times> world" where
  \<comment> \<open>\<open>csv.writer.writerow\<close>\<close>
  "write_row w h r =
     (case quota w of
        None \<Rightarrow> (Inr (), append_row w h r)
      | Some 0 \<Rightarrow> (Inl IOError, w)
      | Some (Suc n) \<Rightarrow> (Inr (), (append_row w h r)\<lparr>quota := Some n\<rparr>))"

definition dict_to_list :: "string list \<Rightarrow> record_t option \<Rightarrow> error + row" where
  \<comment> \<open>\<open>csv.DictWriter._dict_to_list\<close> with \<open>extrasaction = 'raise'\<close> and \<open>restval = ''\<close>;
      the argument \<open>None\<close> has no \<open>keys\<close>\<close>
  "dict_to_list fieldnames rowdict =
     (case rowdict of
        None \<Rightarrow> Inl AttributeError
      | Some d \<Rightarrow>
          if filter (\<lambda>k. k \<notin> set fieldnames) (dict_keys d) \<noteq> [] then Inl ValueError
          else Inr (map (\<lambda>key. case dict_get d key of Some v \<Rightarrow> v | None \<Rightarrow> []) fieldnames))"

definition writerow :: "world \<Rightarrow> handle \<Rightarrow> string list \<Rightarrow> record_t \<Rightarrow> (error + unit) \<times> world" where
  \<comment> \<open>\<open>csv.DictWriter.writerow\<close>\<close>
  "writerow w h fieldnames d =
     (case dict_to_list fieldnames (Some d) of
        Inl e \<Rightarrow> (Inl e, w)
      | Inr r \<Rightarrow> write_row w h r)"

definition writeheader :: "world \<Rightarrow> handle \<Rightarrow> string list \<Rightarrow> (error + unit) \<times> world" where
  \<comment> \<open>\<open>csv.DictWriter.writeheader\<close>: the row of the dictionary that maps each field name to itself\<close>
  "writeheader w h fieldnames = writerow w h fieldnames (zip fieldnames fieldnames)"

fun writerows :: "world \<Rightarrow> handle \<Rightarrow> string list \<Rightarrow> record_t list \<Rightarrow> (error + unit) \<times> world" where
  \<comment> \<open>\<open>csv.DictWriter.writerows\<close>: row by row, stopping at the first error\<close>
  "writerows w h fieldnames [] = (Inr (), w)"
| "writerows w h fieldnames (d # ds) =
     (case writerow w h fieldnames d of
        (Inl e, w') \<Rightarrow> (Inl e, w')
      | (Inr u, w') \<Rightarrow> writerows w' h fieldnames ds)"

definition fieldnames_of :: "record_t list \<Rightarrow> string list" where
  \<comment> \<open>\<open>sorted(set().union(*(record.keys() for record in data)))\<close>\<close>
  "fieldnames_of data = sort (remdups (concat (map dict_keys data)))"

definition csv_try :: "string list \<Rightarrow> record_t list \<Rightarrow> string option \<Rightarrow> world
    \<Rightarrow> (error + unit) \<times> bool \<times> world" where
  \<comment> \<open>the \<open>try\<close> block: how it ends, whether \<open>writer\<close> was bound, and the world afterwards;
      the \<open>except IOError\<close> clause logs and raises the error again\<close>
  "csv_try fieldnames data output_file w =
     (case (case output_file of None \<Rightarrow> (Inr Stdout, w) | Some path \<Rightarrow> open_w w path) of
        (Inl e, w1) \<Rightarrow> (Inl e, False, w1)
      | (Inr h, w1) \<Rightarrow>
          (case writeheader w1 h fieldnames of
             (Inl e, w2) \<Rightarrow> (Inl e, True, w2)
           | (Inr u, w2) \<Rightarrow>
               (case writerows w2 h fieldnames data of (r, w3) \<Rightarrow> (r, True, w3))))"

definition csv_finally :: "string list \<Rightarrow> string option \<Rightarrow> bool \<Rightarrow> error + unit \<Rightarrow> error + unit" where
  \<comment> \<open>the \<open>finally\<close> block, \<open>writer._dict_to_list(None).close()\<close>: an exception raised here
      replaces the pending one; \<open>close\<close> would act on the value of \<open>_dict_to_list\<close>, not on
      the file\<close>
  "csv_finally fieldnames output_file bound outcome =
     (if output_file \<noteq> None
      then (if \<not> bound then Inl UnboundLocalError
            else (case dict_to_list fieldnames None of
                    Inl e \<Rightarrow> Inl e
                  | Inr g \<Rightarrow> outcome))
      else outcome)"

definition write_to_csv :: "parser \<Rightarrow> string option \<Rightarrow> world \<Rightarrow> (error + unit) \<times> world" where
  "write_to_csv self output_file w =
     (if parsed_data self = [] then (Inr (), w)
      else
        (let fieldnames = fieldnames_of (parsed_data self)
         in (case csv_try fieldnames (parsed_data self) output_file w of
               (outcome, bound, w') \<Rightarrow>
                 (csv_finally fieldnames output_file bound outcome, w'))))"

definition sink_rows :: "world \<Rightarrow> handle \<Rightarrow> row list" where
  \<comment> \<open>what a sink has received\<close>
  "sink_rows w h =
     (case h of
        Stdout \<Rightarrow> stdout w
      | File path \<Rightarrow> (case dict_get (files w) path of None \<Rightarrow> [] | Some rs \<Rightarrow> rs))"

definition render :: "string list \<Rightarrow> record_t \<Rightarrow> row" where
  \<comment> \<open>the cells of a record under a header: a field the record lacks is the empty string\<close>
  "render header d = map (\<lambda>key. case dict_get d key of Some v \<Rightarrow> v | None \<Rightarrow> []) header"

section \<open>Auxiliary notions\<close>

definition first_at :: "string \<Rightarrow> string \<Rightarrow> nat \<Rightarrow> bool" where
  \<comment> \<open>\<open>lit\<close> occurs in \<open>s\<close> at position \<open>n\<close> and at no earlier position\<close>
  "first_at lit s n =
     (prefix lit (drop n s) \<and> list_all (\<lambda>i. \<not> prefix lit (drop i s)) [0..<n])"

definition strip_single :: "char \<Rightarrow> string \<Rightarrow> string" where
  \<comment> \<open>the specification's words: one leading and one trailing \<open>c\<close> are removed\<close>
  "strip_single c s =
     (let s1 = (case s of [] \<Rightarrow> [] | x # xs \<Rightarrow> if x = c then xs else s)
      in if s1 \<noteq> [] \<and> last s1 = c then butlast s1 else s1)"

definition spec_hosts_value :: "string \<Rightarrow> string" where
  \<comment> \<open>the \<open>hosts\<close> value as the specification words it: split on the comma, trim each piece,
      strip a single quote at each end, discard the empty pieces, join\<close>
  "spec_hosts_value g =
     join '' | ''
       (filter (\<lambda>piece. piece \<noteq> [])
          (map (\<lambda>piece. strip_single quote (strip piece)) (split_on CHR '','' g)))"

section \<open>Facts about strings\<close>

lemma dropWhile_all: "\<forall>c \<in> set s. P c \<Longrightarrow> dropWhile P s = []"
  by (induction s) simp_all

lemma strip_Nil: "strip [] = []"
  by (simp add: strip_def rstrip_by_def lstrip_by_def)

lemma strip_all_space: "\<forall>c \<in> set content. isspace c \<Longrightarrow> strip content = []"
  by (simp add: strip_def lstrip_by_def rstrip_by_def dropWhile_all)

lemma split_on_not_Nil: "split_on c s \<noteq> []"
  by (induction s) (auto split: list.splits)



lemma strip_by_sandwich:
  assumes "\<forall>x \<in> set l. P x" and "\<forall>x \<in> set r. P x"
    and "s = [] \<or> (\<not> P (hd s) \<and> \<not> P (last s))"
  shows "rstrip_by P (lstrip_by P (l @ s @ r)) = s"
proof (cases s)
  case Nil
  with assms(1,2) show ?thesis
    by (simp add: rstrip_by_def lstrip_by_def dropWhile_all)
next
  case (Cons x xs)
  with assms(3) have hd: "\<not> P x" and lst: "\<not> P (last s)" by auto
  from assms(1) have "dropWhile P (l @ s @ r) = dropWhile P (s @ r)"
    by (simp add: dropWhile_append2)
  also have "\<dots> = s @ r" using Cons hd by simp
  finally have l: "lstrip_by P (l @ s @ r) = s @ r" by (simp add: lstrip_by_def)
  have "rev s \<noteq> []" using Cons by simp
  then obtain y ys where rs: "rev s = y # ys" by (cases "rev s") auto
  then have "y = last s" using Cons by (metis hd_rev list.sel(1))
  with lst have "\<not> P y" by simp
  with rs have "dropWhile P (rev s) = rev s" by simp
  moreover have "dropWhile P (rev r @ rev s) = dropWhile P (rev s)"
    by (rule dropWhile_append2) (use assms(2) in auto)
  ultimately have "rev (dropWhile P (rev (s @ r))) = s" by simp
  with l show ?thesis by (simp add: rstrip_by_def)
qed

lemma strip_sandwich:
  assumes "\<forall>x \<in> set l. isspace x" and "\<forall>x \<in> set r. isspace x"
    and "s = [] \<or> (\<not> isspace (hd s) \<and> \<not> isspace (last s))"
  shows "strip (l @ s @ r) = s"
  unfolding strip_def using assms by (rule strip_by_sandwich)

lemma strip_unchanged:
  assumes "X \<noteq> []" and "\<not> isspace (hd X)" and "\<not> isspace (last X)"
  shows "strip X = X"
  using strip_sandwich [of "[]" "[]" X] assms by simp




lemma strip_by_decomposition:
  "\<exists>l r. s = l @ rstrip_by P (lstrip_by P s) @ r \<and> (\<forall>x \<in> set l. P x) \<and> (\<forall>x \<in> set r. P x)"
proof -
  let ?m = "dropWhile P s"
  have "s = takeWhile P s @ ?m" by simp
  moreover have "rev ?m = takeWhile P (rev ?m) @ dropWhile P (rev ?m)" by simp
  then have "?m = rev (dropWhile P (rev ?m)) @ rev (takeWhile P (rev ?m))"
    by (metis rev_append rev_rev_ident)
  ultimately have "s = takeWhile P s @ rstrip_by P (lstrip_by P s) @ rev (takeWhile P (rev ?m))"
    by (simp add: rstrip_by_def lstrip_by_def)
  moreover have "\<forall>x \<in> set (takeWhile P s). P x" by (auto dest: set_takeWhileD)
  moreover have "\<forall>x \<in> set (rev (takeWhile P (rev ?m))). P x" by (auto dest: set_takeWhileD)
  ultimately show ?thesis by blast
qed

lemma strip_by_ends:
  "rstrip_by P (lstrip_by P s) = [] \<or>
   (\<not> P (hd (rstrip_by P (lstrip_by P s))) \<and> \<not> P (last (rstrip_by P (lstrip_by P s))))"
proof (cases "rstrip_by P (lstrip_by P s) = []")
  case True
  then show ?thesis by simp
next
  case False
  let ?m = "dropWhile P s"
  let ?d = "dropWhile P (rev ?m)"
  from False have d: "?d \<noteq> []" by (simp add: rstrip_by_def lstrip_by_def)
  then have m: "?m \<noteq> []" by (cases "dropWhile P s = []") simp_all
  have "\<not> P (hd ?d)" using d by (rule hd_dropWhile)
  then have lst: "\<not> P (last (rev ?d))" using d by (simp add: last_rev)
  have "rev ?m = takeWhile P (rev ?m) @ ?d" by simp
  then have "?m = rev ?d @ rev (takeWhile P (rev ?m))" by (metis rev_append rev_rev_ident)
  then have "hd ?m = hd (rev ?d)" using d by (metis hd_append2 rev_is_Nil_conv)
  moreover have "\<not> P (hd ?m)" using m by (rule hd_dropWhile)
  ultimately have "\<not> P (hd (rev ?d))" by simp
  with lst show ?thesis by (simp add: rstrip_by_def lstrip_by_def)
qed

section \<open>Facts about dictionaries\<close>

lemma dict_keys_simps:
  "dict_keys [] = []"
  "dict_keys ((k, v) # d) = k # dict_keys d"
  by (simp_all add: dict_keys_def)

lemma dict_get_simps:
  "dict_get [] k' = None"
  "dict_get ((k, v) # d) k' = (if k = k' then Some v else dict_get d k')"
  by (simp_all add: dict_get_def)

lemma dict_get_dict_set:
  "dict_get (dict_set d k v) k' = (if k' = k then Some v else dict_get d k')"
  by (induction d k v rule: dict_set.induct) (auto simp: dict_get_simps)

lemma dict_keys_dict_set:
  "set (dict_keys (dict_set d k v)) = insert k (set (dict_keys d))"
  by (induction d k v rule: dict_set.induct) (auto simp: dict_keys_simps)

lemma distinct_dict_set:
  "distinct (dict_keys d) \<Longrightarrow> distinct (dict_keys (dict_set d k v))"
  by (induction d k v rule: dict_set.induct) (auto simp: dict_keys_simps dict_keys_dict_set)

lemma dict_set_not_Nil: "dict_set d k v \<noteq> []"
  by (induction d k v rule: dict_set.induct) simp_all

lemma dict_get_Some_iff: "(\<exists>v. dict_get d k = Some v) = (k \<in> set (dict_keys d))"
  by (induction d) (auto simp: dict_get_simps dict_keys_simps)

section \<open>Facts about matching\<close>

lemma rmatch_lits:
  "rmatch (map Item (lits lit) @ p) s st cap =
     (if prefix lit s then rmatch p (drop (length lit) s) st cap else None)"
proof (induction lit arbitrary: s)
  case Nil
  show ?case by (simp add: lits_def)
next
  case (Cons c lit)
  have IH: "rmatch (map Item (lits lit) @ p) s' st cap =
     (if prefix lit s' then rmatch p (drop (length lit) s') st cap else None)" for s'
    using Cons.IH by simp
  show ?case
  proof (cases s)
    case Nil
    then show ?thesis by (simp add: lits_def)
  next
    case (Cons x xs)
    have "rmatch (map Item (lits (c # lit)) @ p) (x # xs) st cap =
          (if x = c then rmatch (map Item (lits lit) @ p) xs st cap else None)"
      by (simp add: lits_def)
    with Cons show ?thesis by (auto simp: IH)
  qed
qed

lemma match_at_needs_literal:
  assumes "before r = lits lit @ rest" and "\<not> prefix lit s"
  shows "match_at r s = None"
proof -
  have "atoms r = map Item (lits lit) @ (map Item rest @ [GOpen] @ map Item (inside r) @ [GClose] @ map Item (after r))"
    using assms(1) by (simp add: atoms_def)
  then show ?thesis using assms(2) by (simp only: match_at_def rmatch_lits if_False)
qed

lemma re_search_here: "match_at r s = Some g \<Longrightarrow> re_search r s = Some g"
  by (cases s) simp_all

lemma re_search_skip:
  "list_all (\<lambda>i. match_at r (drop i (pre @ s)) = None) [0..<length pre] \<Longrightarrow>
   re_search r (pre @ s) = re_search r s"
proof (induction pre)
  case Nil
  show ?case by simp
next
  case (Cons x pre)
  from Cons.prems have all: "\<forall>i < Suc (length pre). match_at r (drop i (x # pre @ s)) = None"
    by (auto simp: list_all_iff simp del: upt_Suc)
  then have "match_at r (x # pre @ s) = None" by (metis drop0 zero_less_Suc)
  moreover have "list_all (\<lambda>i. match_at r (drop i (pre @ s)) = None) [0..<length pre]"
  proof -
    have "match_at r (drop i (pre @ s)) = None" if "i < length pre" for i
      using all that by (metis Suc_less_eq drop_Suc_Cons)
    then show ?thesis by (simp add: list_all_iff)
  qed
  ultimately show ?case using Cons.IH by simp
qed

lemma re_search_first_at:
  assumes "first_at lit content n" and "before r = lits lit @ rest"
    and "match_at r (drop n content) = Some g"
  shows "re_search r content = Some g"
proof -
  have none: "match_at r (drop i content) = None" if "i < n" for i
  proof -
    from assms(1) that have "\<not> prefix lit (drop i content)"
      by (simp add: first_at_def list_all_iff)
    with assms(2) show ?thesis by (rule match_at_needs_literal)
  qed
  have "list_all (\<lambda>i. match_at r (drop i (take n content @ drop n content)) = None)
          [0..<length (take n content)]"
    by (simp add: list_all_iff none)
  then have "re_search r (take n content @ drop n content) = re_search r (drop n content)"
    by (rule re_search_skip)
  with assms(3) show ?thesis by (simp add: re_search_here)
qed

lemma rmatch_Star_all:
  assumes "\<forall>x \<in> set xs. cmatch c x"
    and "rest = [] \<or> \<not> cmatch c (hd rest)"
    and "rmatch p rest st cap = Some g"
  shows "rmatch (Item (Star c) # p) (xs @ rest) st cap = Some g"
  using assms(1)
proof (induction xs)
  case Nil
  from assms(2,3) show ?case by (cases rest) auto
next
  case (Cons x xs)
  then show ?case by simp
qed





lemma match_bracketed:
  assumes "CHR '']'' \<notin> set g"
  shows "rmatch [GOpen, Item (Star (NotLit CHR '']'')), GClose, Item (Star Space),
                 Item (One (Lit CHR '']''))]
           (g @ CHR '']'' # q) st cap = Some g"
proof -
  have "rmatch [GClose, Item (Star Space), Item (One (Lit CHR '']''))]
          (CHR '']'' # q) (g @ CHR '']'' # q) cap = Some g"
    by (simp add: isspace_def whitespace_def)
  moreover from assms have "\<forall>x \<in> set g. cmatch (NotLit CHR '']'') x" by auto
  ultimately have "rmatch (Item (Star (NotLit CHR '']'')) #
        [GClose, Item (Star Space), Item (One (Lit CHR '']''))])
      (g @ CHR '']'' # q) (g @ CHR '']'' # q) cap = Some g"
    by (intro rmatch_Star_all) simp_all
  then show ?thesis by simp
qed

lemma match_hosts:
  assumes "CHR '']'' \<notin> set g" and "g = [] \<or> \<not> isspace (hd g)"
  shows "match_at re_hosts (''hosts: [ '' @ g @ '']'' @ q) = Some g"
proof (cases g)
  case Nil
  then show ?thesis
    by (simp add: match_at_def atoms_def re_hosts_def lits_def isspace_def whitespace_def)
next
  case (Cons x xs)
  with assms(2) have "\<not> isspace x" by simp
  with match_bracketed [OF assms(1), of q] Cons show ?thesis
    by (simp add: match_at_def atoms_def re_hosts_def lits_def isspace_def whitespace_def)
qed

lemma match_database_name_Nil: "match_at re_database_name [] = None"
  by (simp add: re_database_name_def match_at_def atoms_def lits_def)

lemma rmatch_Star_GClose:
  "rmatch [Item (Star c), GClose] s st cap =
     Some (take (length st - length (dropWhile (cmatch c) s)) st)"
  by (induction s) simp_all

lemma rmatch_Star_result:
  "rmatch (Item (Star c) # p) s st cap = Some g \<Longrightarrow> \<exists>s'. rmatch p s' st cap = Some g"
proof (induction s)
  case Nil
  then show ?case by auto
next
  case (Cons x xs)
  then show ?case by (auto split: if_splits option.splits)
qed

lemma length_minus_dropWhile:
  "take (length xs - length (dropWhile P xs)) xs = takeWhile P xs"
proof -
  have "length xs = length (takeWhile P xs) + length (dropWhile P xs)"
    by (metis length_append takeWhile_dropWhile_id)
  then have "length xs - length (dropWhile P xs) = length (takeWhile P xs)" by simp
  moreover have "take (length (takeWhile P xs)) xs = takeWhile P xs"
    by (metis append_eq_conv_conj takeWhile_dropWhile_id)
  ultimately show ?thesis by simp
qed

lemma match_nonspace_group:
  assumes "rmatch [GOpen, Item (Plus NotSpace), GClose] s st cap = Some g"
  shows "g \<noteq> [] \<and> (\<forall>c \<in> set g. \<not> isspace c)"
proof (cases s)
  case Nil
  with assms show ?thesis by simp
next
  case (Cons x xs)
  with assms have x: "\<not> isspace x"
    and "rmatch [Item (Star NotSpace), GClose] xs (x # xs) cap = Some g"
    by (auto split: if_splits)
  then have "g = take (length (x # xs) - length (dropWhile (cmatch NotSpace) xs)) (x # xs)"
    by (simp add: rmatch_Star_GClose)
  moreover have "length (x # xs) - length (dropWhile (cmatch NotSpace) xs) =
      Suc (length xs - length (dropWhile (cmatch NotSpace) xs))"
    by (simp add: Suc_diff_le length_dropWhile_le)
  ultimately have "g = x # takeWhile (cmatch NotSpace) xs"
    by (simp add: length_minus_dropWhile)
  with x show ?thesis by (auto dest: set_takeWhileD)
qed

lemma match_database_name_group:
  assumes "match_at re_database_name s = Some g"
  shows "g \<noteq> [] \<and> (\<forall>c \<in> set g. \<not> isspace c)"
proof -
  have "atoms re_database_name =
          map Item (lits ''** DATABASE:'') @
          (Item (Star Space) # [GOpen, Item (Plus NotSpace), GClose])"
    by (simp add: atoms_def re_database_name_def)
  then have "match_at re_database_name s =
      (if prefix ''** DATABASE:'' s
       then rmatch (Item (Star Space) # [GOpen, Item (Plus NotSpace), GClose])
              (drop (length ''** DATABASE:'') s) [] []
       else None)"
    by (simp only: match_at_def rmatch_lits)
  with assms have "rmatch (Item (Star Space) # [GOpen, Item (Plus NotSpace), GClose])
      (drop (length ''** DATABASE:'') s) [] [] = Some g"
    by (cases "prefix ''** DATABASE:'' s") simp_all
  then obtain s' where "rmatch [GOpen, Item (Plus NotSpace), GClose] s' [] [] = Some g"
    by (blast dest: rmatch_Star_result)
  then show ?thesis by (rule match_nonspace_group)
qed

lemma re_search_match_at:
  "re_search r s = Some g \<Longrightarrow> \<exists>s'. match_at r s' = Some g"
  by (induction s) (auto split: option.splits)

lemma search_database_name_group:
  assumes "re_search re_database_name line = Some g"
  shows "g \<noteq> [] \<and> strip g = g"
proof -
  from assms obtain s where "match_at re_database_name s = Some g"
    by (blast dest: re_search_match_at)
  then have g: "g \<noteq> []" "\<forall>c \<in> set g. \<not> isspace c"
    by (simp_all add: match_database_name_group)
  then have "hd g \<in> set g" "last g \<in> set g" by simp_all
  with g have "\<not> isspace (hd g)" "\<not> isspace (last g)" by blast+
  with g(1) show ?thesis by (simp add: strip_unchanged)
qed

section \<open>Cluster records\<close>

lemma cluster_field_keys:
  "set (dict_keys (cluster_field content fp r)) =
     set (dict_keys r) \<union> (if re_search (snd fp) content = None then {} else {fst fp})"
  by (auto simp: cluster_field_def dict_keys_dict_set split: option.splits)

lemma cluster_field_distinct:
  "distinct (dict_keys r) \<Longrightarrow> distinct (dict_keys (cluster_field content fp r))"
  by (auto simp: cluster_field_def distinct_dict_set split: option.splits)

lemma fold_cluster_keys:
  "set (dict_keys (fold (cluster_field content) cfg r)) =
     set (dict_keys r) \<union> fst ` {fp \<in> set cfg. re_search (snd fp) content \<noteq> None}"
proof (induction cfg arbitrary: r)
  case Nil
  show ?case by simp
next
  case (Cons a cfg)
  have "{fp \<in> set (a # cfg). re_search (snd fp) content \<noteq> None} =
        (if re_search (snd a) content = None then {} else {a}) \<union>
        {fp \<in> set cfg. re_search (snd fp) content \<noteq> None}"
    by auto
  then show ?case by (simp add: Cons.IH cluster_field_keys Un_assoc image_Un)
qed

lemma fold_cluster_distinct:
  "distinct (dict_keys r) \<Longrightarrow> distinct (dict_keys (fold (cluster_field content) cfg r))"
  by (induction cfg arbitrary: r) (auto simp: cluster_field_distinct)

text \<open>
  C4.  \<open>parse_cluster_info\<close> returns at most one record: none when no pattern of the cluster
  registry matches anywhere in the content, and otherwise one record whose fields are exactly
  the fields whose pattern matched (a field whose pattern did not match has no entry).
\<close>

theorem parse_cluster_info_zero_or_one:
  "length (parse_cluster_info self content) \<le> 1 \<and>
   ((\<forall>fp \<in> set (cluster (config self)). re_search (snd fp) content = None) \<longrightarrow>
      parse_cluster_info self content = []) \<and>
   ((\<exists>fp \<in> set (cluster (config self)). re_search (snd fp) content \<noteq> None) \<longrightarrow>
      (\<exists>record. parse_cluster_info self content = [record] \<and> distinct (dict_keys record) \<and>
         (\<forall>f. (\<exists>v. dict_get record f = Some v) =
              (\<exists>p. (f, p) \<in> set (cluster (config self)) \<and> re_search p content \<noteq> None))))"
proof -
  define cfg where "cfg = cluster (config self)"
  define rcd where "rcd = fold (cluster_field content) cfg []"
  have keys: "set (dict_keys rcd) = fst ` {fp \<in> set cfg. re_search (snd fp) content \<noteq> None}"
    unfolding rcd_def by (simp add: fold_cluster_keys dict_keys_simps)
  have dist: "distinct (dict_keys rcd)"
    unfolding rcd_def by (rule fold_cluster_distinct) (simp add: dict_keys_simps)
  have res: "parse_cluster_info self content = (if rcd \<noteq> [] then [rcd] else [])"
    by (simp add: parse_cluster_info_def rcd_def cfg_def)
  have len: "length (parse_cluster_info self content) \<le> 1"
    by (simp add: res)
  have none: "parse_cluster_info self content = []"
    if "\<forall>fp \<in> set cfg. re_search (snd fp) content = None"
  proof -
    from that have "{fp \<in> set cfg. re_search (snd fp) content \<noteq> None} = {}" by auto
    with keys have "set (dict_keys rcd) = {}" by simp
    then have "rcd = []" by (simp add: dict_keys_def)
    then show ?thesis by (simp add: res)
  qed
  have some: "\<exists>r. parse_cluster_info self content = [r] \<and> distinct (dict_keys r) \<and>
         (\<forall>f. (\<exists>v. dict_get r f = Some v) =
              (\<exists>p. (f, p) \<in> set cfg \<and> re_search p content \<noteq> None))"
    if "\<exists>fp \<in> set cfg. re_search (snd fp) content \<noteq> None"
  proof -
    from that obtain fp where "fp \<in> set cfg" "re_search (snd fp) content \<noteq> None" by blast
    then have "fp \<in> {fp \<in> set cfg. re_search (snd fp) content \<noteq> None}" by simp
    then have "{fp \<in> set cfg. re_search (snd fp) content \<noteq> None} \<noteq> {}" by blast
    with keys have "set (dict_keys rcd) \<noteq> {}" by simp
    then have "rcd \<noteq> []" by (auto simp: dict_keys_def)
    then have "parse_cluster_info self content = [rcd]" by (simp add: res)
    moreover have "(\<exists>v. dict_get rcd f = Some v) =
              (\<exists>p. (f, p) \<in> set cfg \<and> re_search p content \<noteq> None)" for f
    proof -
      have "(f \<in> fst ` {fp \<in> set cfg. re_search (snd fp) content \<noteq> None}) =
            (\<exists>p. (f, p) \<in> set cfg \<and> re_search p content \<noteq> None)"
        by force
      then show ?thesis by (simp only: dict_get_Some_iff keys)
    qed
    ultimately show ?thesis using dist by blast
  qed
  from len none some show ?thesis unfolding cfg_def by blast
qed

theorem parse_cluster_info_zero_or_one_witness:
  "(\<not> (\<exists>fp \<in> set (cluster (config (Parser main_config))).
          re_search (snd fp) ''no cluster data'' \<noteq> None) \<and>
    parse_cluster_info (Parser main_config) ''no cluster data'' = []) \<and>
   ((\<exists>fp \<in> set (cluster (config (Parser main_config))).
       re_search (snd fp) (''primary: 'db1:27017'' @ [quote]) \<noteq> None) \<and>
    (\<exists>record. parse_cluster_info (Parser main_config) (''primary: 'db1:27017'' @ [quote]) = [record] \<and>
       distinct (dict_keys record) \<and>
       (\<forall>f. (\<exists>v. dict_get record f = Some v) =
          (\<exists>p. (f, p) \<in> set (cluster (config (Parser main_config))) \<and>
               re_search p (''primary: 'db1:27017'' @ [quote]) \<noteq> None))))"
proof -
  have h0: "\<forall>fp \<in> set (cluster (config (Parser main_config))).
       re_search (snd fp) ''no cluster data'' = None"
    by code_simp
  have h1: "\<exists>fp \<in> set (cluster (config (Parser main_config))).
       re_search (snd fp) (''primary: 'db1:27017'' @ [quote]) \<noteq> None"
    by code_simp
  have n0: "\<not> (\<exists>fp \<in> set (cluster (config (Parser main_config))).
          re_search (snd fp) ''no cluster data'' \<noteq> None)"
    using h0 by simp
  have a: "parse_cluster_info (Parser main_config) ''no cluster data'' = []"
    using h0 parse_cluster_info_zero_or_one [of "Parser main_config" "''no cluster data''"]
    by blast
  have b: "\<exists>record. parse_cluster_info (Parser main_config) (''primary: 'db1:27017'' @ [quote]) = [record] \<and>
       distinct (dict_keys record) \<and>
       (\<forall>f. (\<exists>v. dict_get record f = Some v) =
          (\<exists>p. (f, p) \<in> set (cluster (config (Parser main_config))) \<and>
               re_search p (''primary: 'db1:27017'' @ [quote]) \<noteq> None))"
    using h1
      parse_cluster_info_zero_or_one [of "Parser main_config" "''primary: 'db1:27017'' @ [quote]"]
    by blast
  from n0 a h1 b show ?thesis by (intro conjI)
qed

lemma cluster_field_get_other:
  "f \<noteq> fst fp \<Longrightarrow> dict_get (cluster_field content fp r) f = dict_get r f"
  by (auto simp: cluster_field_def dict_get_dict_set split: option.splits)

lemma fold_cluster_get_other:
  "f \<notin> fst ` set cfg \<Longrightarrow> dict_get (fold (cluster_field content) cfg r) f = dict_get r f"
  by (induction cfg arbitrary: r) (simp_all add: cluster_field_get_other)

lemma cluster_field_get_same:
  "re_search p content = Some g \<Longrightarrow>
   dict_get (cluster_field content (f, p) r) f =
     Some (if f = ''hosts'' then hosts_value g else strip g)"
  by (simp add: cluster_field_def dict_get_dict_set)

lemma fold_cluster_get:
  "distinct (map fst cfg) \<Longrightarrow> (f, p) \<in> set cfg \<Longrightarrow> re_search p content = Some g \<Longrightarrow>
   dict_get (fold (cluster_field content) cfg r) f =
     Some (if f = ''hosts'' then hosts_value g else strip g)"
proof (induction cfg arbitrary: r)
  case Nil
  then show ?case by simp
next
  case (Cons a cfg)
  show ?case
  proof (cases "a = (f, p)")
    case True
    with Cons.prems have "f \<notin> fst ` set cfg" by simp
    then have "dict_get (fold (cluster_field content) cfg (cluster_field content a r)) f =
               dict_get (cluster_field content a r) f"
      by (rule fold_cluster_get_other)
    with True Cons.prems(3) show ?thesis by (simp add: cluster_field_get_same)
  next
    case False
    with Cons.prems have "(f, p) \<in> set cfg" "distinct (map fst cfg)" by auto
    then show ?thesis using Cons.IH Cons.prems(3) by simp
  qed
qed

lemma hosts_value_Nil: "hosts_value [] = []"
  by (simp add: hosts_value_def strip_Nil)

text \<open>
  C9.  When a pattern of the cluster registry matches with an empty group 1 (as the \<open>hosts\<close>
  pattern does on \<open>hosts: []\<close>), the field is stored with the empty string as its value, and
  the match is enough for the one record to be produced.
\<close>

theorem empty_capture_is_present:
  assumes "distinct (dict_keys (cluster (config self)))"
    and "(f, p) \<in> set (cluster (config self))"
    and "re_search p content = Some []"
  shows "\<exists>record. parse_cluster_info self content = [record] \<and> dict_get record f = Some []"
proof -
  define rcd where "rcd = fold (cluster_field content) (cluster (config self)) []"
  from assms have "dict_get rcd f = Some (if f = ''hosts'' then hosts_value [] else strip [])"
    unfolding rcd_def dict_keys_def by (rule fold_cluster_get)
  then have get: "dict_get rcd f = Some []"
    by (simp add: strip_Nil hosts_value_Nil)
  then have "rcd \<noteq> []" by (auto simp: dict_get_simps)
  then have "parse_cluster_info self content = [rcd]"
    by (simp add: parse_cluster_info_def rcd_def)
  with get show ?thesis by blast
qed

theorem empty_capture_is_present_witness:
  "distinct (dict_keys (cluster (config (Parser main_config)))) \<and>
   (''hosts'', re_hosts) \<in> set (cluster (config (Parser main_config))) \<and>
   re_search re_hosts ''hosts: []'' = Some [] \<and>
   (\<exists>record. parse_cluster_info (Parser main_config) ''hosts: []'' = [record] \<and>
      dict_get record ''hosts'' = Some [])"
proof -
  have h1: "distinct (dict_keys (cluster (config (Parser main_config))))"
    by (simp add: Parser_def main_config_def CLUSTER_REGEXES_def dict_keys_def)
  have h2: "(''hosts'', re_hosts) \<in> set (cluster (config (Parser main_config)))"
    by (simp add: Parser_def main_config_def CLUSTER_REGEXES_def)
  have h3: "re_search re_hosts ''hosts: []'' = Some []"
    by code_simp
  from h1 h2 h3 empty_capture_is_present [OF h1 h2 h3] show ?thesis by (intro conjI)
qed

lemma strip_by_eq_Nil:
  "(rstrip_by P (lstrip_by P s) = []) = (\<forall>x \<in> set s. P x)"
proof -
  let ?m = "dropWhile P s"
  have "(rstrip_by P (lstrip_by P s) = []) = (\<forall>x \<in> set ?m. P x)"
    by (simp add: rstrip_by_def lstrip_by_def dropWhile_eq_Nil_conv)
  also have "\<dots> = (?m = [])"
  proof
    assume all: "\<forall>x \<in> set ?m. P x"
    show "?m = []"
    proof (rule ccontr)
      assume ne: "?m \<noteq> []"
      then have "\<not> P (hd ?m)" by (rule hd_dropWhile)
      moreover from ne have "hd ?m \<in> set ?m" by simp
      ultimately show False using all by blast
    qed
  next
    assume "?m = []"
    then show "\<forall>x \<in> set ?m. P x" by (simp del: dropWhile_eq_Nil_conv)
  qed
  also have "\<dots> = (\<forall>x \<in> set s. P x)"
    by (simp add: dropWhile_eq_Nil_conv)
  finally show ?thesis .
qed

lemma strip_quotes_eq_Nil:
  "(strip_chars [quote] s = []) = (\<forall>c \<in> set s. c = quote)"
  by (simp add: strip_chars_def strip_by_eq_Nil)

lemma hosts_value_discard_after:
  assumes "\<forall>piece \<in> set (split_on CHR '','' g).
             strip piece \<noteq> [] \<longrightarrow> (\<exists>c \<in> set (strip piece). c \<noteq> quote)"
  shows "hosts_value g =
           join '' | ''
             (filter (\<lambda>host. host \<noteq> [])
                (map (\<lambda>piece. strip_chars [quote] (strip piece)) (split_on CHR '','' g)))"
proof -
  have "(strip piece \<noteq> []) = (strip_chars [quote] (strip piece) \<noteq> [])"
    if "piece \<in> set (split_on CHR '','' g)" for piece
  proof (cases "strip piece = []")
    case True
    then show ?thesis by (simp add: strip_quotes_eq_Nil)
  next
    case False
    with assms that have "\<exists>c \<in> set (strip piece). c \<noteq> quote" by blast
    with False show ?thesis by (simp add: strip_quotes_eq_Nil)
  qed
  then have "filter (\<lambda>piece. strip piece \<noteq> []) (split_on CHR '','' g) =
             filter (\<lambda>piece. strip_chars [quote] (strip piece) \<noteq> []) (split_on CHR '','' g)"
    by (intro filter_cong) simp_all
  then show ?thesis
    by (simp add: hosts_value_def filter_map comp_def)
qed

lemma hosts_field_stored:
  assumes "distinct (dict_keys (cluster (config self)))"
    and "(''hosts'', p) \<in> set (cluster (config self))"
    and "re_search p content = Some g"
  shows "\<exists>record. parse_cluster_info self content = [record] \<and>
           dict_get record ''hosts'' = Some (hosts_value g)"
proof -
  define rcd where "rcd = fold (cluster_field content) (cluster (config self)) []"
  from assms have get: "dict_get rcd ''hosts'' = Some (hosts_value g)"
    unfolding rcd_def dict_keys_def by (simp add: fold_cluster_get)
  then have "rcd \<noteq> []" by (auto simp: dict_get_simps)
  then have "parse_cluster_info self content = [rcd]"
    by (simp add: parse_cluster_info_def rcd_def)
  with get show ?thesis by simp
qed

lemma hosts_example_group:
  "match_at re_hosts (''hosts: [ 'h1' , , 'h2' ]'' @ q) =
     Some ([quote] @ ''h1' , , 'h2'' @ [quote] @ '' '')"
proof -
  have "match_at re_hosts
          (''hosts: [ '' @ ([quote] @ ''h1' , , 'h2'' @ [quote] @ '' '') @ '']'' @ q) =
        Some ([quote] @ ''h1' , , 'h2'' @ [quote] @ '' '')"
    by (rule match_hosts) (simp_all add: isspace_def whitespace_def)
  then show ?thesis by simp
qed

lemma hosts_example_value:
  "hosts_value ([quote] @ ''h1' , , 'h2'' @ [quote] @ '' '') = ''h1 | h2''"
  by code_simp

text \<open>
  C1, as the code has it.  The value of the \<open>hosts\<close> field comes from group 1 of the first
  match of its pattern: it is split on the comma, each piece is trimmed and loses every
  leading and trailing quote, the empty pieces are discarded and the others are joined with
  \<open> | \<close>.  This is stated for a group in which no piece is made of quotes only (nothing is
  said here of such a piece).  In particular, when the first \<open>hosts:\<close> of the content is
  followed by \<open> [ 'h1' , , 'h2' ]\<close>, the value is \<open>h1 | h2\<close>.
\<close>

theorem hosts_field_value:
  "(distinct (dict_keys (cluster (config self))) \<and>
    (''hosts'', p) \<in> set (cluster (config self)) \<and>
    re_search p content = Some g \<and>
    (\<forall>piece \<in> set (split_on CHR '','' g).
        strip piece \<noteq> [] \<longrightarrow> (\<exists>c \<in> set (strip piece). c \<noteq> quote)) \<longrightarrow>
    (\<exists>record. parse_cluster_info self content = [record] \<and>
       dict_get record ''hosts'' =
         Some (join '' | ''
                 (filter (\<lambda>host. host \<noteq> [])
                    (map (\<lambda>piece. strip_chars [quote] (strip piece))
                       (split_on CHR '','' g)))))) \<and>
   (first_at ''hosts:'' log n \<and> drop n log = ''hosts: [ 'h1' , , 'h2' ]'' @ q \<longrightarrow>
    (\<exists>record. parse_cluster_info (Parser main_config) log = [record] \<and>
       dict_get record ''hosts'' = Some ''h1 | h2''))"
proof (intro conjI impI)
  assume a: "distinct (dict_keys (cluster (config self))) \<and>
    (''hosts'', p) \<in> set (cluster (config self)) \<and>
    re_search p content = Some g \<and>
    (\<forall>piece \<in> set (split_on CHR '','' g).
        strip piece \<noteq> [] \<longrightarrow> (\<exists>c \<in> set (strip piece). c \<noteq> quote))"
  then have a1: "distinct (dict_keys (cluster (config self)))"
    and a2: "(''hosts'', p) \<in> set (cluster (config self))"
    and a3: "re_search p content = Some g"
    by simp_all
  then have "\<exists>record. parse_cluster_info self content = [record] \<and>
           dict_get record ''hosts'' = Some (hosts_value g)"
    by (rule hosts_field_stored)
  moreover from a have "hosts_value g =
           join '' | ''
             (filter (\<lambda>host. host \<noteq> [])
                (map (\<lambda>piece. strip_chars [quote] (strip piece)) (split_on CHR '','' g)))"
    by (intro hosts_value_discard_after) simp
  ultimately show "\<exists>record. parse_cluster_info self content = [record] \<and>
       dict_get record ''hosts'' =
         Some (join '' | ''
                 (filter (\<lambda>host. host \<noteq> [])
                    (map (\<lambda>piece. strip_chars [quote] (strip piece))
                       (split_on CHR '','' g))))"
    by simp
next
  assume b: "first_at ''hosts:'' log n \<and> drop n log = ''hosts: [ 'h1' , , 'h2' ]'' @ q"
  define g0 where "g0 = [quote] @ ''h1' , , 'h2'' @ [quote] @ '' ''"
  have bf: "before re_hosts = lits ''hosts:'' @ [Star Space, One (Lit CHR ''[''), Star Space]"
    by (simp add: re_hosts_def)
  from b have "match_at re_hosts (drop n log) = Some g0"
    unfolding g0_def by (simp only: hosts_example_group)
  with b bf have s: "re_search re_hosts log = Some g0"
    by (intro re_search_first_at [where lit = "''hosts:''" and n = n]) simp_all
  have d: "distinct (dict_keys (cluster (config (Parser main_config))))"
    by (simp add: Parser_def main_config_def CLUSTER_REGEXES_def dict_keys_def)
  have m: "(''hosts'', re_hosts) \<in> set (cluster (config (Parser main_config)))"
    by (simp add: Parser_def main_config_def CLUSTER_REGEXES_def)
  have "hosts_value g0 = ''h1 | h2''"
    unfolding g0_def by (rule hosts_example_value)
  with hosts_field_stored [OF d m s]
  show "\<exists>record. parse_cluster_info (Parser main_config) log = [record] \<and>
       dict_get record ''hosts'' = Some ''h1 | h2''"
    by simp
qed

theorem hosts_field_value_witness:
  "re_search re_hosts (''hosts: [ 'h1:27017', 'h2:27017' ]'') =
     Some ([quote] @ ''h1:27017', 'h2:27017'' @ [quote] @ '' '') \<and>
   (\<exists>record.
      parse_cluster_info (Parser main_config) (''hosts: [ 'h1:27017', 'h2:27017' ]'') = [record] \<and>
      dict_get record ''hosts'' = Some ''h1:27017 | h2:27017'') \<and>
   first_at ''hosts:'' (''ok hosts: [ 'h1' , , 'h2' ] hosts: [ 'z' ]'') 3 \<and>
   (\<exists>record.
      parse_cluster_info (Parser main_config)
        (''ok hosts: [ 'h1' , , 'h2' ] hosts: [ 'z' ]'') = [record] \<and>
      dict_get record ''hosts'' = Some ''h1 | h2'')"
proof -
  let ?c = "''hosts: [ 'h1:27017', 'h2:27017' ]''"
  let ?g = "[quote] @ ''h1:27017', 'h2:27017'' @ [quote] @ '' ''"
  let ?t = "''ok hosts: [ 'h1' , , 'h2' ] hosts: [ 'z' ]''"
  have h1: "distinct (dict_keys (cluster (config (Parser main_config))))"
    by (simp add: Parser_def main_config_def CLUSTER_REGEXES_def dict_keys_def)
  have h2: "(''hosts'', re_hosts) \<in> set (cluster (config (Parser main_config)))"
    by (simp add: Parser_def main_config_def CLUSTER_REGEXES_def)
  have h3: "re_search re_hosts ?c = Some ?g"
    by code_simp
  have h4: "\<forall>piece \<in> set (split_on CHR '','' ?g).
        strip piece \<noteq> [] \<longrightarrow> (\<exists>c \<in> set (strip piece). c \<noteq> quote)"
    by code_simp
  have v: "join '' | ''
             (filter (\<lambda>host. host \<noteq> [])
                (map (\<lambda>piece. strip_chars [quote] (strip piece)) (split_on CHR '','' ?g))) =
           ''h1:27017 | h2:27017''"
    by code_simp
  have f: "first_at ''hosts:'' ?t 3" by code_simp
  have dr: "drop 3 ?t = ''hosts: [ 'h1' , , 'h2' ]'' @ '' hosts: [ 'z' ]''" by simp
  note t = hosts_field_value [where self = "Parser main_config" and p = re_hosts
      and content = "?c" and g = "?g" and log = "?t" and n = 3 and q = "'' hosts: [ 'z' ]''"]
  from t h1 h2 h3 h4
  have a: "\<exists>record. parse_cluster_info (Parser main_config) ?c = [record] \<and>
      dict_get record ''hosts'' = Some ''h1:27017 | h2:27017''"
    unfolding v by blast
  from t f dr
  have b: "\<exists>record. parse_cluster_info (Parser main_config) ?t = [record] \<and>
      dict_get record ''hosts'' = Some ''h1 | h2''"
    by blast
  from h3 a f b show ?thesis by (intro conjI)
qed

text \<open>
  C1 as it is stated fails on the code.  On \<open>hosts: [ 'h1' , '', 'h2' ]\<close> the value is
  \<open>h1 |  | h2\<close>, where the specification's words give \<open>h1 | h2\<close>; and on a piece with two
  quotes at each end the code strips both, where the specification's words strip one.
\<close>

theorem hosts_field_counterexample:
  "parse_cluster_info (Parser main_config)
     (''hosts: [ 'h1' , '' @ [quote, quote] @ '', 'h2' ]'') = [[(''hosts'', ''h1 |  | h2'')]] \<and>
   spec_hosts_value
     ([quote] @ ''h1'' @ [quote] @ '' , '' @ [quote, quote] @ '', '' @ [quote] @ ''h2'' @ [quote] @ '' '') =
     ''h1 | h2'' \<and>
   hosts_value ([quote, quote] @ ''h1'' @ [quote, quote]) = ''h1'' \<and>
   spec_hosts_value ([quote, quote] @ ''h1'' @ [quote, quote]) = [quote] @ ''h1'' @ [quote]"
  by code_simp





section \<open>Database records\<close>

lemma database_record_main:
  "database_record (Parser main_config) (n, line) =
     [(''line_number'', str_nat n),
      (''database_name'', case re_search re_database_name line of None \<Rightarrow> [] | Some g \<Rightarrow> g)]"
  by (auto simp: database_record_def Parser_def main_config_def DATABASE_REGEXES_def
      database_field_def search_database_name_group split: option.splits)

lemma parse_database_info_main:
  "parse_database_info (Parser main_config) content =
     map (database_record (Parser main_config))
       (filter (\<lambda>nl. re_search re_database_name (snd nl) \<noteq> None)
          (List.enumerate 1 (split_on newline (strip content))))"
proof -
  have "truthy (dict_get (database_record (Parser main_config) nl) ''database_name'') =
        (re_search re_database_name (snd nl) \<noteq> None)" for nl
    by (cases nl)
       (auto simp: database_record_main dict_get_simps truthy_def search_database_name_group
          split: option.splits)
  then show ?thesis
    by (simp add: parse_database_info_def filter_map comp_def)
qed

text \<open>
  C6.  Every record that \<open>parse_database_info\<close> returns has a non-empty \<open>database_name\<close>,
  and the record of a line is returned exactly when its \<open>database_name\<close> is non-empty; with
  the registry of \<open>main\<close>, a line on which the pattern does not match contributes nothing.
\<close>

theorem database_name_nonempty:
  "(\<forall>record \<in> set (parse_database_info self content).
      \<exists>v. dict_get record ''database_name'' = Some v \<and> v \<noteq> []) \<and>
   (\<forall>nl \<in> set (List.enumerate 1 (split_on newline (strip content))).
      (database_record self nl \<in> set (parse_database_info self content)) =
      (\<exists>v. dict_get (database_record self nl) ''database_name'' = Some v \<and> v \<noteq> [])) \<and>
   (\<forall>nl \<in> set (List.enumerate 1 (split_on newline (strip content))).
      re_search re_database_name (snd nl) = None \<longrightarrow>
      database_record (Parser main_config) nl
        \<notin> set (parse_database_info (Parser main_config) content))"
proof -
  have general: "(\<forall>record \<in> set (parse_database_info p content).
      \<exists>v. dict_get record ''database_name'' = Some v \<and> v \<noteq> []) \<and>
   (\<forall>nl \<in> set (List.enumerate 1 (split_on newline (strip content))).
      (database_record p nl \<in> set (parse_database_info p content)) =
      (\<exists>v. dict_get (database_record p nl) ''database_name'' = Some v \<and> v \<noteq> []))"
    for p :: parser
    by (auto simp: parse_database_info_def truthy_def split: option.splits)
  have unmatched: "database_record (Parser main_config) nl
        \<notin> set (parse_database_info (Parser main_config) content)"
    if "re_search re_database_name (snd nl) = None" for nl
  proof
    assume "database_record (Parser main_config) nl
        \<in> set (parse_database_info (Parser main_config) content)"
    with general [of "Parser main_config"]
    obtain v where "dict_get (database_record (Parser main_config) nl) ''database_name'' = Some v"
      and "v \<noteq> []" by blast
    with that show False
      by (cases nl) (simp add: database_record_main dict_get_simps)
  qed
  from general [of self] unmatched show ?thesis by blast
qed

theorem database_name_nonempty_witness:
  "[(''line_number'', ''2''), (''database_name'', ''foo'')]
     \<in> set (parse_database_info (Parser main_config) ''x\<newline>** DATABASE: foo'') \<and>
   (\<exists>v. dict_get [(''line_number'', ''2''), (''database_name'', ''foo'')] ''database_name'' = Some v
        \<and> v \<noteq> []) \<and>
   (1, ''x'') \<in> set (List.enumerate 1 (split_on newline (strip ''x\<newline>** DATABASE: foo''))) \<and>
   re_search re_database_name (snd (1::nat, ''x'')) = None \<and>
   database_record (Parser main_config) (1, ''x'')
     \<notin> set (parse_database_info (Parser main_config) ''x\<newline>** DATABASE: foo'') \<and>
   \<not> (\<exists>v. dict_get (database_record (Parser main_config) (1, ''x'')) ''database_name'' = Some v
        \<and> v \<noteq> [])"
proof -
  have h1: "[(''line_number'', ''2''), (''database_name'', ''foo'')]
     \<in> set (parse_database_info (Parser main_config) ''x\<newline>** DATABASE: foo'')"
    by code_simp
  have h2: "(1, ''x'') \<in> set (List.enumerate 1 (split_on newline (strip ''x\<newline>** DATABASE: foo'')))"
    by code_simp
  have h3: "re_search re_database_name (snd (1::nat, ''x'')) = None"
    by code_simp
  note t = database_name_nonempty [of "Parser main_config" "''x\<newline>** DATABASE: foo''"]
  from t h1 have c1: "\<exists>v. dict_get [(''line_number'', ''2''), (''database_name'', ''foo'')] ''database_name'' = Some v
        \<and> v \<noteq> []" by blast
  from t h2 h3 have c3: "database_record (Parser main_config) (1, ''x'')
     \<notin> set (parse_database_info (Parser main_config) ''x\<newline>** DATABASE: foo'')"
    by blast
  from t h2 c3 have c2: "\<not> (\<exists>v. dict_get (database_record (Parser main_config) (1, ''x'')) ''database_name'' = Some v
        \<and> v \<noteq> [])" by blast
  from h1 c1 h2 h3 c3 c2 show ?thesis by (intro conjI)
qed

text \<open>
  C10.  For a content that is empty or all whitespace, \<open>parse_database_info\<close> returns the
  empty list: the stripped content is one empty line, on which the pattern cannot match.
\<close>

theorem whitespace_content_no_records:
  assumes "\<forall>c \<in> set content. isspace c"
  shows "parse_database_info (Parser main_config) content = []"
proof -
  from assms have "strip content = []" by (rule strip_all_space)
  then show ?thesis
    by (simp add: parse_database_info_def List.enumerate_eq_zip database_record_def Parser_def
        main_config_def DATABASE_REGEXES_def database_field_def match_database_name_Nil
        dict_get_simps truthy_def)
qed

theorem whitespace_content_no_records_witness:
  "list_all isspace '' \<newline>  '' \<and> parse_database_info (Parser main_config) '' \<newline>  '' = []"
proof -
  have h: "\<forall>c \<in> set '' \<newline>  ''. isspace c"
    by (simp add: isspace_def whitespace_def)
  from h whitespace_content_no_records [OF h] show ?thesis by (simp add: list_all_iff)
qed

text \<open>
  C2.  The claim fails on the code: \<open>content.strip()\<close> removes leading whitespace too, and
  with it every leading blank line.  In the content below the two markers are on lines 2 and
  5, and the records carry the line numbers 1 and 4.
\<close>

theorem line_numbers_after_leading_blank_line:
  "split_on newline ''\<newline>** DATABASE: foo\<newline>\<newline>\<newline>** DATABASE: bar'' =
     [[], ''** DATABASE: foo'', [], [], ''** DATABASE: bar''] \<and>
   parse_database_info (Parser main_config)
     ''\<newline>** DATABASE: foo\<newline>\<newline>\<newline>** DATABASE: bar'' =
     [[(''line_number'', ''1''), (''database_name'', ''foo'')],
      [(''line_number'', ''4''), (''database_name'', ''bar'')]]"
  by code_simp

section \<open>Statelessness\<close>

lemma parse_cluster_info_parsed_data:
  "parse_cluster_info (self\<lparr>parsed_data := d\<rparr>) content = parse_cluster_info self content"
  by (simp add: parse_cluster_info_def)

lemma parse_database_info_parsed_data:
  "parse_database_info (self\<lparr>parsed_data := d\<rparr>) content = parse_database_info self content"
proof -
  have "database_record (self\<lparr>parsed_data := d\<rparr>) = database_record self"
    by (rule ext) (simp add: database_record_def)
  then show ?thesis by (simp add: parse_database_info_def)
qed

lemma parse_file_parsed_data:
  "fst (parse_file (self\<lparr>parsed_data := d\<rparr>) fs file_path parse_type) =
     fst (parse_file self fs file_path parse_type)"
  by (simp add: parse_file_def parse_cluster_info_parsed_data parse_database_info_parsed_data
      Let_def split: sum.splits)

lemma parse_file_state:
  "snd (parse_file self fs file_path parse_type) = self \<or>
   (\<exists>d. snd (parse_file self fs file_path parse_type) = self\<lparr>parsed_data := d\<rparr>)"
  by (auto simp: parse_file_def Let_def split: sum.splits)

text \<open>
  C8.  Parsing is deterministic and does not depend on earlier calls: what the two extractors
  and \<open>parse_file\<close> return is the same whatever \<open>parsed_data\<close> holds, and parsing the
  same file again with the parser object left by the first call returns the same records.
\<close>

theorem parsing_is_stateless:
  "parse_cluster_info (self\<lparr>parsed_data := d\<rparr>) content = parse_cluster_info self content \<and>
   parse_database_info (self\<lparr>parsed_data := d\<rparr>) content = parse_database_info self content \<and>
   fst (parse_file (self\<lparr>parsed_data := d\<rparr>) fs file_path parse_type) =
     fst (parse_file self fs file_path parse_type) \<and>
   fst (parse_file (snd (parse_file self fs file_path parse_type)) fs file_path parse_type) =
     fst (parse_file self fs file_path parse_type)"
proof -
  have "fst (parse_file (snd (parse_file self fs file_path parse_type)) fs file_path parse_type) =
     fst (parse_file self fs file_path parse_type)"
    using parse_file_state [of self fs file_path parse_type]
    by (auto simp: parse_file_parsed_data)
  then show ?thesis
    by (simp add: parse_cluster_info_parsed_data parse_database_info_parsed_data
        parse_file_parsed_data)
qed

theorem parsing_is_stateless_witness:
  "fst (parse_file (snd (parse_file (Parser main_config) [''log'' \<mapsto> Inr ''hosts: []''] ''log'' ''cluster''))
      [''log'' \<mapsto> Inr ''hosts: []''] ''log'' ''cluster'') = Inr [[(''hosts'', [])]] \<and>
   fst (parse_file (Parser main_config) [''log'' \<mapsto> Inr ''hosts: []''] ''log'' ''cluster'') =
     Inr [[(''hosts'', [])]]"
proof -
  have "fst (parse_file (Parser main_config) [''log'' \<mapsto> Inr ''hosts: []''] ''log'' ''cluster'') =
     Inr [[(''hosts'', [])]]"
    by (simp add: parse_file_def read_text_file_def parse_cluster_info_def Parser_def
        main_config_def CLUSTER_REGEXES_def cluster_field_def re_replica_set_name_def re_hosts_def
        re_primary_host_def match_at_def atoms_def lits_def isspace_def whitespace_def
        hosts_value_def strip_def lstrip_by_def rstrip_by_def Let_def)
  with parsing_is_stateless [where self = "Parser main_config" and d = "[]"
      and content = "''hosts: []''" and fs = "[''log'' \<mapsto> Inr ''hosts: []'']"
      and file_path = "''log''" and parse_type = "''cluster''"]
  show ?thesis by simp
qed

section \<open>The CSV writer\<close>

lemma fieldnames_of_set:
  "set (fieldnames_of data) = (\<Union>d \<in> set data. set (dict_keys d))"
  by (simp add: fieldnames_of_def)

lemma fieldnames_of_sorted: "sorted (fieldnames_of data)"
  by (simp add: fieldnames_of_def)

lemma fieldnames_of_distinct: "distinct (fieldnames_of data)"
  by (simp add: fieldnames_of_def)

lemma dict_to_list_Some:
  "set (dict_keys d) \<subseteq> set fieldnames \<Longrightarrow> dict_to_list fieldnames (Some d) = Inr (render fieldnames d)"
  by (auto simp: dict_to_list_def render_def filter_empty_conv)

lemma map_of_zip_self: "k \<in> set xs \<Longrightarrow> map_of (zip xs xs) k = Some k"
  by (induction xs) auto

lemma render_header: "render fieldnames (zip fieldnames fieldnames) = fieldnames"
  by (simp add: render_def dict_get_def map_of_zip_self map_idI)

lemma sink_rows_append_row: "sink_rows (append_row w h r) h = sink_rows w h @ [r]"
  by (cases h) (simp_all add: sink_rows_def append_row_def dict_get_dict_set)

lemma quota_append_row: "quota (append_row w h r) = quota w"
  by (cases h) (simp_all add: append_row_def)

lemma write_row_unlimited:
  "quota w = None \<Longrightarrow> write_row w h r = (Inr (), append_row w h r)"
  by (simp add: write_row_def)

lemma writerow_unlimited:
  "quota w = None \<Longrightarrow> set (dict_keys d) \<subseteq> set fieldnames \<Longrightarrow>
   writerow w h fieldnames d = (Inr (), append_row w h (render fieldnames d))"
  by (simp add: writerow_def dict_to_list_Some write_row_unlimited)

lemma writeheader_unlimited:
  "quota w = None \<Longrightarrow> writeheader w h fieldnames = (Inr (), append_row w h fieldnames)"
proof -
  assume q: "quota w = None"
  have "set (dict_keys (zip fieldnames fieldnames)) \<subseteq> set fieldnames"
    by (simp add: dict_keys_def)
  with q show ?thesis
    by (simp add: writeheader_def writerow_unlimited render_header)
qed

lemma writerows_unlimited:
  "quota w = None \<Longrightarrow> \<forall>d \<in> set data. set (dict_keys d) \<subseteq> set fieldnames \<Longrightarrow>
   fst (writerows w h fieldnames data) = Inr () \<and>
   sink_rows (snd (writerows w h fieldnames data)) h =
     sink_rows w h @ map (render fieldnames) data \<and>
   open_files (snd (writerows w h fieldnames data)) = open_files w"
proof (induction data arbitrary: w)
  case Nil
  show ?case by simp
next
  case (Cons d data)
  let ?w' = "append_row w h (render fieldnames d)"
  from Cons.prems have step: "writerow w h fieldnames d = (Inr (), ?w')"
    by (simp add: writerow_unlimited)
  from Cons.prems have "quota ?w' = None" by (simp add: quota_append_row)
  moreover from Cons.prems have "\<forall>d \<in> set data. set (dict_keys d) \<subseteq> set fieldnames" by simp
  ultimately have IH: "fst (writerows ?w' h fieldnames data) = Inr () \<and>
   sink_rows (snd (writerows ?w' h fieldnames data)) h =
     sink_rows ?w' h @ map (render fieldnames) data \<and>
   open_files (snd (writerows ?w' h fieldnames data)) = open_files ?w'"
    by (rule Cons.IH)
  have "open_files ?w' = open_files w" by (cases h) (simp_all add: append_row_def)
  with IH step show ?case by (simp add: sink_rows_append_row)
qed

lemma keys_in_fieldnames:
  "\<forall>d \<in> set data. set (dict_keys d) \<subseteq> set (fieldnames_of data)"
  by (auto simp: fieldnames_of_set)

lemma csv_try_unlimited:
  assumes "quota w = None"
  shows "csv_try (fieldnames_of data) data None w =
           (Inr (), True, snd (writerows (append_row w Stdout (fieldnames_of data)) Stdout
                                 (fieldnames_of data) data))"
proof -
  let ?w1 = "append_row w Stdout (fieldnames_of data)"
  have q: "quota ?w1 = None" using assms by (simp add: quota_append_row)
  have "fst (writerows ?w1 Stdout (fieldnames_of data) data) = Inr ()"
    using writerows_unlimited [OF q keys_in_fieldnames] by simp
  then show ?thesis
    using assms
    by (cases "writerows ?w1 Stdout (fieldnames_of data) data")
       (simp add: csv_try_def writeheader_unlimited)
qed

lemma open_w_ok:
  "path \<notin> set (unwritable w) \<Longrightarrow>
   open_w w path =
     (Inr (File path), w\<lparr>files := dict_set (files w) path [], open_files := path # open_files w\<rparr>)"
  by (simp add: open_w_def)

lemma csv_try_file_unlimited:
  assumes "quota w = None" and "path \<notin> set (unwritable w)"
    and "w0 = w\<lparr>files := dict_set (files w) path [], open_files := path # open_files w\<rparr>"
  shows "csv_try (fieldnames_of data) data (Some path) w =
           (Inr (), True,
            snd (writerows (append_row w0 (File path) (fieldnames_of data))
                   (File path) (fieldnames_of data) data))"
proof -
  let ?w1 = "append_row w0 (File path) (fieldnames_of data)"
  have o: "open_w w path = (Inr (File path), w0)"
    using assms(2,3) by (simp add: open_w_ok)
  have q0: "quota w0 = None" using assms(1,3) by simp
  then have q: "quota ?w1 = None" by (simp add: quota_append_row)
  have "fst (writerows ?w1 (File path) (fieldnames_of data) data) = Inr ()"
    using writerows_unlimited [OF q keys_in_fieldnames] by simp
  then show ?thesis
    using q0
    by (cases "writerows ?w1 (File path) (fieldnames_of data) data")
       (simp add: csv_try_def o writeheader_unlimited)
qed

text \<open>
  C7.  With no record, \<open>write_to_csv\<close> leaves every sink as it was and raises nothing.
  Otherwise, when the writes succeed, the sink (standard output, or the named file) receives
  the header row and then one row per record in the order of the list; the header is the
  sorted list, without repetition, of all field names of all records, and a field that a
  record lacks is the empty string in its row.
\<close>

theorem write_to_csv_rows:
  "(parsed_data self = [] \<longrightarrow> write_to_csv self output_file w = (Inr (), w)) \<and>
   (parsed_data self \<noteq> [] \<and> quota w = None \<longrightarrow>
      fst (write_to_csv self None w) = Inr () \<and>
      stdout (snd (write_to_csv self None w)) =
        stdout w @
        fieldnames_of (parsed_data self) #
        map (\<lambda>d. map (\<lambda>key. case dict_get d key of Some v \<Rightarrow> v | None \<Rightarrow> [])
                    (fieldnames_of (parsed_data self)))
            (parsed_data self)) \<and>
   (parsed_data self \<noteq> [] \<and> quota w = None \<and> path \<notin> set (unwritable w) \<longrightarrow>
      dict_get (files (snd (write_to_csv self (Some path) w))) path =
        Some (fieldnames_of (parsed_data self) #
              map (\<lambda>d. map (\<lambda>key. case dict_get d key of Some v \<Rightarrow> v | None \<Rightarrow> [])
                          (fieldnames_of (parsed_data self)))
                  (parsed_data self))) \<and>
   sorted (fieldnames_of (parsed_data self)) \<and>
   distinct (fieldnames_of (parsed_data self)) \<and>
   set (fieldnames_of (parsed_data self)) = (\<Union>d \<in> set (parsed_data self). set (dict_keys d))"
proof -
  let ?data = "parsed_data self"
  let ?fn = "fieldnames_of ?data"
  have rnd: "map (\<lambda>d. map (\<lambda>key. case dict_get d key of Some v \<Rightarrow> v | None \<Rightarrow> []) ?fn) ?data =
             map (render ?fn) ?data"
    by (simp add: render_def)
  have empty: "write_to_csv self output_file w = (Inr (), w)" if "?data = []"
    using that by (simp add: write_to_csv_def)
  have out: "fst (write_to_csv self None w) = Inr () \<and>
      stdout (snd (write_to_csv self None w)) = stdout w @ ?fn # map (render ?fn) ?data"
    if "?data \<noteq> []" and q: "quota w = None"
  proof -
    let ?w1 = "append_row w Stdout ?fn"
    have q1: "quota ?w1 = None" using q by (simp add: quota_append_row)
    have "sink_rows (snd (writerows ?w1 Stdout ?fn ?data)) Stdout =
            sink_rows ?w1 Stdout @ map (render ?fn) ?data"
      using writerows_unlimited [OF q1 keys_in_fieldnames] by simp
    then have "stdout (snd (writerows ?w1 Stdout ?fn ?data)) =
            stdout w @ ?fn # map (render ?fn) ?data"
      by (simp add: sink_rows_def append_row_def)
    with that show ?thesis
      by (simp add: write_to_csv_def csv_try_unlimited csv_finally_def)
  qed
  have to_file: "dict_get (files (snd (write_to_csv self (Some path) w))) path =
        Some (?fn # map (render ?fn) ?data)"
    if "?data \<noteq> []" and q: "quota w = None" and p: "path \<notin> set (unwritable w)"
  proof -
    define w0 where
      "w0 = w\<lparr>files := dict_set (files w) path [], open_files := path # open_files w\<rparr>"
    let ?w1 = "append_row w0 (File path) ?fn"
    let ?w2 = "snd (writerows ?w1 (File path) ?fn ?data)"
    have q0: "quota w0 = None" using q by (simp add: w0_def)
    then have q1: "quota ?w1 = None" by (simp add: quota_append_row)
    have s0: "sink_rows w0 (File path) = []"
      by (simp add: w0_def sink_rows_def dict_get_dict_set)
    have s2: "sink_rows ?w2 (File path) = sink_rows ?w1 (File path) @ map (render ?fn) ?data"
      using writerows_unlimited [OF q1 keys_in_fieldnames] by simp
    then have s: "sink_rows ?w2 (File path) = ?fn # map (render ?fn) ?data"
      by (simp add: sink_rows_append_row s0)
    then have "dict_get (files ?w2) path = Some (?fn # map (render ?fn) ?data)"
      by (simp add: sink_rows_def split: option.splits)
    with that show ?thesis
      by (simp add: write_to_csv_def csv_try_file_unlimited [OF q p w0_def] Let_def)
  qed
  from empty out to_file show ?thesis
    unfolding rnd
    by (simp add: fieldnames_of_sorted fieldnames_of_distinct fieldnames_of_set)
qed

theorem write_to_csv_rows_witness:
  "write_to_csv (Parser main_config) None
     \<lparr>stdout = [], files = [], open_files = [], unwritable = [], quota = None\<rparr> =
     (Inr (), \<lparr>stdout = [], files = [], open_files = [], unwritable = [], quota = None\<rparr>) \<and>
   stdout (snd (write_to_csv
       \<lparr>config = main_config,
        parsed_data = [[(''replica_set_name'', ''rs0'')],
                       [(''replica_set_name'', ''rs1''), (''hosts'', ''h1 | h2'')]]\<rparr>
       None \<lparr>stdout = [], files = [], open_files = [], unwritable = [], quota = None\<rparr>)) =
     [[''hosts'', ''replica_set_name''], [[], ''rs0''], [''h1 | h2'', ''rs1'']] \<and>
   dict_get (files (snd (write_to_csv
       \<lparr>config = main_config,
        parsed_data = [[(''replica_set_name'', ''rs0'')],
                       [(''replica_set_name'', ''rs1''), (''hosts'', ''h1 | h2'')]]\<rparr>
       (Some ''out.csv'')
       \<lparr>stdout = [], files = [], open_files = [], unwritable = [], quota = None\<rparr>))) ''out.csv'' =
     Some [[''hosts'', ''replica_set_name''], [[], ''rs0''], [''h1 | h2'', ''rs1'']]"
proof -
  let ?w = "\<lparr>stdout = [], files = [], open_files = [], unwritable = [], quota = None\<rparr>"
  let ?data = "[[(''replica_set_name'', ''rs0'')],
                [(''replica_set_name'', ''rs1''), (''hosts'', ''h1 | h2'')]]"
  let ?p = "\<lparr>config = main_config, parsed_data = ?data\<rparr>"
  have fn: "fieldnames_of ?data = [''hosts'', ''replica_set_name'']"
    by code_simp
  have e: "parsed_data (Parser main_config) = []" by (simp add: Parser_def)
  have d: "parsed_data ?p \<noteq> [] \<and> quota ?w = None \<and> ''out.csv'' \<notin> set (unwritable ?w)" by simp
  from e write_to_csv_rows [of "Parser main_config" None ?w]
  have a: "write_to_csv (Parser main_config) None ?w = (Inr (), ?w)" by simp
  from d write_to_csv_rows [of ?p None ?w "''out.csv''"]
  have b: "stdout (snd (write_to_csv ?p None ?w)) =
     [[''hosts'', ''replica_set_name''], [[], ''rs0''], [''h1 | h2'', ''rs1'']]"
    by (simp add: fn dict_get_simps)
  from d write_to_csv_rows [of ?p None ?w "''out.csv''"]
  have c: "dict_get (files (snd (write_to_csv ?p (Some ''out.csv'') ?w))) ''out.csv'' =
     Some [[''hosts'', ''replica_set_name''], [[], ''rs0''], [''h1 | h2'', ''rs1'']]"
    by (simp add: fn dict_get_simps)
  from a b c show ?thesis by (intro conjI)
qed

section \<open>Writing to a named file\<close>

lemma csv_finally_named:
  "csv_finally fieldnames (Some path) bound outcome =
     (if bound then Inl AttributeError else Inl UnboundLocalError)"
  by (simp add: csv_finally_def dict_to_list_def)

lemma write_to_csv_named_file_always_raises:
  "parsed_data self \<noteq> [] \<Longrightarrow>
   fst (write_to_csv self (Some path) w) = Inl AttributeError \<or>
   fst (write_to_csv self (Some path) w) = Inl UnboundLocalError"
  by (simp add: write_to_csv_def csv_finally_named Let_def split: prod.splits)

lemma open_files_append_row: "open_files (append_row w h r) = open_files w"
  by (cases h) (simp_all add: append_row_def)

lemma open_files_write_row: "open_files (snd (write_row w h r)) = open_files w"
  by (simp add: write_row_def open_files_append_row split: option.splits nat.splits)

lemma open_files_writerow: "open_files (snd (writerow w h fieldnames d)) = open_files w"
  by (simp add: writerow_def open_files_write_row split: sum.splits)

lemma open_files_writerows: "open_files (snd (writerows w h fieldnames data)) = open_files w"
proof (induction data arbitrary: w)
  case Nil
  show ?case by simp
next
  case (Cons d data)
  obtain r w' where step: "writerow w h fieldnames d = (r, w')" by (cases "writerow w h fieldnames d")
  then have "open_files w' = open_files w"
    using open_files_writerow [of w h fieldnames d] by simp
  with step Cons.IH [of w'] show ?case by (cases r) simp_all
qed

lemma open_files_writerows_eq:
  "writerows w h fieldnames data = (r, w') \<Longrightarrow> open_files w' = open_files w"
  using open_files_writerows [of w h fieldnames data] by simp

lemma write_to_csv_never_closes:
  "set (open_files w) \<subseteq> set (open_files (snd (write_to_csv self output_file w)))"
proof (cases "parsed_data self = []")
  case True
  then show ?thesis by (simp add: write_to_csv_def)
next
  case False
  let ?fn = "fieldnames_of (parsed_data self)"
  have tr: "set (open_files w) \<subseteq> set (open_files (snd (snd (csv_try ?fn (parsed_data self) output_file w))))"
  proof (cases output_file)
    case None
    obtain r w2 where h: "writeheader w Stdout ?fn = (r, w2)" by (cases "writeheader w Stdout ?fn")
    then have "open_files w2 = open_files w"
      using open_files_writerow [of w Stdout ?fn "zip ?fn ?fn"] by (simp add: writeheader_def)
    moreover obtain r3 w3 where rows: "writerows w2 Stdout ?fn (parsed_data self) = (r3, w3)"
      by (cases "writerows w2 Stdout ?fn (parsed_data self)")
    moreover from rows have "open_files w3 = open_files w2" by (rule open_files_writerows_eq)
    ultimately show ?thesis using None h
      by (cases r) (simp_all add: csv_try_def)
  next
    case (Some path)
    show ?thesis
    proof (cases "path \<in> set (unwritable w)")
      case True
      with Some show ?thesis by (simp add: csv_try_def open_w_def)
    next
      case False
      define w0 where
        "w0 = w\<lparr>files := dict_set (files w) path [], open_files := path # open_files w\<rparr>"
      have o: "open_w w path = (Inr (File path), w0)" using False by (simp add: open_w_ok w0_def)
      obtain r w2 where h: "writeheader w0 (File path) ?fn = (r, w2)"
        by (cases "writeheader w0 (File path) ?fn")
      then have "open_files w2 = open_files w0"
        using open_files_writerow [of w0 "File path" ?fn "zip ?fn ?fn"] by (simp add: writeheader_def)
      then have "set (open_files w) \<subseteq> set (open_files w2)" by (auto simp: w0_def)
      moreover obtain r3 w3 where rows: "writerows w2 (File path) ?fn (parsed_data self) = (r3, w3)"
        by (cases "writerows w2 (File path) ?fn (parsed_data self)")
      moreover from rows have "open_files w3 = open_files w2" by (rule open_files_writerows_eq)
      ultimately show ?thesis using Some o h
        by (cases r) (simp_all add: csv_try_def)
    qed
  qed
  with False show ?thesis
    by (cases "csv_try ?fn (parsed_data self) output_file w")
       (simp add: write_to_csv_def Let_def)
qed

text \<open>
  C3.  The claim fails on the code.  With a named output file and writes that all succeed,
  \<open>write_to_csv\<close> ends with \<open>AttributeError\<close>, raised by the \<open>finally\<close> block, and the file
  object that it opened is still open.
\<close>

theorem write_to_csv_named_file_raises:
  "write_to_csv
     \<lparr>config = main_config,
      parsed_data = [[(''line_number'', ''1''), (''database_name'', ''foo'')]]\<rparr>
     (Some ''out.csv'')
     \<lparr>stdout = [], files = [], open_files = [], unwritable = [], quota = None\<rparr> =
   (Inl AttributeError,
    \<lparr>stdout = [],
     files = [(''out.csv'', [[''database_name'', ''line_number''], [''foo'', ''1'']])],
     open_files = [''out.csv''], unwritable = [], quota = None\<rparr>)"
proof -
  have fn: "fieldnames_of [[(''line_number'', ''1''), (''database_name'', ''foo'')]] =
            [''database_name'', ''line_number'']"
    by code_simp
  show ?thesis
    by (simp add: write_to_csv_def fn csv_try_def open_w_def writeheader_def writerow_def
        dict_to_list_def dict_keys_def dict_get_def write_row_def append_row_def
        csv_finally_def)
qed

end
